theory Spec2Isabelle
  imports Main
begin

section \<open>Data model\<close>

text \<open>
  The manager of \<^verbatim>\<open>manager.go\<close> talks to three collaborators (the cluster scheduler, the
  jobs repository and the processes repository) through Go interfaces. The value types
  it handles are declared in other files of the package; the records below hold the
  fields that \<^verbatim>\<open>manager.go\<close> reads or writes, under their Go names. Where two Go types
  share a field name the Isabelle selector is written qualified, as in Go
  (\<open>Release.AppName r\<close>, \<open>Job.AppName j\<close>).

  Go's \<^verbatim>\<open>int\<close> is modelled by \<open>int\<close>: the only arithmetic of the file is the step of a
  loop counter that runs between 1 and a process quantity, which cannot wrap around below
  \<open>2^63 - 1\<close> instances. Pointers to releases, configurations, slugs and jobs are
  modelled by the values they point to (the manager never writes through them, and
  every pointer it is handed is taken to be non-nil); pointers to processes, which
  \<^verbatim>\<open>scaleProcess\<close> writes through, are addresses into an explicit store.
\<close>

type_synonym AppName = string
type_synonym ReleaseVersion = int
type_synonym ProcessType = string
type_synonym Command = string
type_synonym Variable = string
type_synonym JobName = string

text \<open>A Go map that the code ranges over is an association list: its entries in the
  order in which this run of the program iterates them. Go map keys are unique.\<close>

type_synonym Vars = "(Variable \<times> string) list"

record Image =
  Repo :: string
  ID :: string

record Release =
  AppName :: AppName
  Ver :: ReleaseVersion

record Config =
  Vars :: Vars

record Slug =
  Image :: Image

record Process =
  Quantity :: int
  Command :: Command

record App =
  Name :: AppName

record JobQuery =
  App :: AppName

record Job =
  AppName :: AppName
  ReleaseVersion :: ReleaseVersion
  ProcessType :: ProcessType
  Instance :: int
  Environment :: Vars
  Image :: Image
  Command :: Command

text \<open>The types of package \<^verbatim>\<open>scheduler\<close>.\<close>

record scheduler_Image =
  Repo :: string
  ID :: string

record scheduler_Execute =
  Command :: string
  Image :: scheduler_Image

record scheduler_Job =
  Name :: JobName
  Environment :: "string \<rightharpoonup> string"
  Execute :: scheduler_Execute

record scheduler_JobState =
  Name :: JobName
  MachineID :: string
  State :: string

record JobState =
  Job :: Job
  Name :: JobName
  MachineID :: string
  State :: string

text \<open>A Go \<^verbatim>\<open>error\<close> value, by its message.\<close>

datatype error = Error string

text \<open>\<^verbatim>\<open>Formation\<close> is \<^verbatim>\<open>map[ProcessType]*Process\<close>: process types, in iteration order,
  with the address of their process. \<^verbatim>\<open>ProcessQuantityMap\<close> is
  \<^verbatim>\<open>map[ProcessType]int\<close>.\<close>

type_synonym addr = nat
type_synonym Formation = "(ProcessType \<times> addr) list"
type_synonym ProcessQuantityMap = "(ProcessType \<times> int) list"

section \<open>Collaborators and program state\<close>

text \<open>
  The three interfaces embedded in \<^verbatim>\<open>manager\<close>. Their implementations are not part of
  \<^verbatim>\<open>manager.go\<close>, so each method is a parameter: a function from its argument and the
  collaborators' state \<open>'w\<close> to its result and the new state. A collaborator is handed the
  value of a job or process; it does not write to the manager's process store.
\<close>

record 'w manager =
  Scheduler_Schedule :: "scheduler_Job \<Rightarrow> 'w \<Rightarrow> error option \<times> 'w"
  Scheduler_Unschedule :: "JobName \<Rightarrow> 'w \<Rightarrow> error option \<times> 'w"
  Scheduler_JobStates :: "'w \<Rightarrow> (error + scheduler_JobState list) \<times> 'w"
  JobsRepository_List :: "JobQuery \<Rightarrow> 'w \<Rightarrow> (error + Job list) \<times> 'w"
  JobsRepository_Add :: "Job \<Rightarrow> 'w \<Rightarrow> error option \<times> 'w"
  JobsRepository_Remove :: "Job \<Rightarrow> 'w \<Rightarrow> error option \<times> 'w"
  ProcessesRepository_Update :: "Process \<Rightarrow> 'w \<Rightarrow> (Process \<times> error option) \<times> 'w"

text \<open>A call of a collaborator method with its argument, and the call together with
  the error it returned (\<open>None\<close> for Go's \<^verbatim>\<open>nil\<close>).\<close>

datatype call =
  Schedule scheduler_Job
| Unschedule JobName
| JobStates
| ListJobs JobQuery
| Add Job
| Remove Job
| Update Process

type_synonym event = "call \<times> error option"

text \<open>
  The state a run of the manager acts on: the collaborators' state, the calls made to
  them so far (oldest first), the store of \<^verbatim>\<open>Process\<close> objects, the job lists handed to
  clean-up goroutines that have been started, and the lines written to the log.
\<close>

record 'w state =
  world :: 'w
  calls :: "event list"
  heap :: "addr \<Rightarrow> Process"
  spawned :: "Job list list"
  logged :: "string list"

definition failure :: "error + 'a \<Rightarrow> error option" where
  "failure r = (case r of Inl err \<Rightarrow> Some err | Inr _ \<Rightarrow> None)"

definition call_Schedule :: "'w manager \<Rightarrow> scheduler_Job \<Rightarrow> 'w state \<Rightarrow> error option \<times> 'w state" where
  "call_Schedule m j st =
     (case Scheduler_Schedule m j (world st) of
        (r, w) \<Rightarrow> (r, st\<lparr>world := w, calls := calls st @ [(Schedule j, r)]\<rparr>))"

definition call_Unschedule :: "'w manager \<Rightarrow> JobName \<Rightarrow> 'w state \<Rightarrow> error option \<times> 'w state" where
  "call_Unschedule m n st =
     (case Scheduler_Unschedule m n (world st) of
        (r, w) \<Rightarrow> (r, st\<lparr>world := w, calls := calls st @ [(Unschedule n, r)]\<rparr>))"

definition call_JobStates :: "'w manager \<Rightarrow> 'w state \<Rightarrow> (error + scheduler_JobState list) \<times> 'w state" where
  "call_JobStates m st =
     (case Scheduler_JobStates m (world st) of
        (r, w) \<Rightarrow> (r, st\<lparr>world := w, calls := calls st @ [(JobStates, failure r)]\<rparr>))"

definition call_List :: "'w manager \<Rightarrow> JobQuery \<Rightarrow> 'w state \<Rightarrow> (error + Job list) \<times> 'w state" where
  "call_List m query st =
     (case JobsRepository_List m query (world st) of
        (r, w) \<Rightarrow> (r, st\<lparr>world := w, calls := calls st @ [(ListJobs query, failure r)]\<rparr>))"

definition call_Add :: "'w manager \<Rightarrow> Job \<Rightarrow> 'w state \<Rightarrow> error option \<times> 'w state" where
  "call_Add m j st =
     (case JobsRepository_Add m j (world st) of
        (r, w) \<Rightarrow> (r, st\<lparr>world := w, calls := calls st @ [(Add j, r)]\<rparr>))"

definition call_Remove :: "'w manager \<Rightarrow> Job \<Rightarrow> 'w state \<Rightarrow> error option \<times> 'w state" where
  "call_Remove m j st =
     (case JobsRepository_Remove m j (world st) of
        (r, w) \<Rightarrow> (r, st\<lparr>world := w, calls := calls st @ [(Remove j, r)]\<rparr>))"

definition call_Update :: "'w manager \<Rightarrow> Process \<Rightarrow> 'w state \<Rightarrow> (Process \<times> error option) \<times> 'w state" where
  "call_Update m p st =
     (case ProcessesRepository_Update m p (world st) of
        (r, w) \<Rightarrow> (r, st\<lparr>world := w, calls := calls st @ [(Update p, snd r)]\<rparr>))"

section \<open>Naming\<close>

text \<open>The verb \<^verbatim>\<open>%d\<close> of \<^verbatim>\<open>fmt.Sprintf\<close>: an integer in decimal, with a minus sign when
  negative and no leading zeros.\<close>

definition digit :: "nat \<Rightarrow> char" where
  "digit d = ''0123456789'' ! d"

fun itoa_nat :: "nat \<Rightarrow> string" where
  "itoa_nat n = (if n < 10 then [digit n] else itoa_nat (n div 10) @ [digit (n mod 10)])"

declare itoa_nat.simps [simp del]

definition itoa :: "int \<Rightarrow> string" where
  "itoa i = (if i < 0 then CHR ''-'' # itoa_nat (nat (- i)) else itoa_nat (nat i))"

text \<open>\<^verbatim>\<open>newJobName\<close>: \<^verbatim>\<open>fmt.Sprintf("%s.%d.%s.%d", name, v, t, i)\<close>.\<close>

definition newJobName :: "AppName \<Rightarrow> ReleaseVersion \<Rightarrow> ProcessType \<Rightarrow> int \<Rightarrow> JobName" where
  "newJobName name v t i = name @ ''.'' @ itoa v @ ''.'' @ t @ ''.'' @ itoa i"

text \<open>
  Modelled from the spec: the method \<^verbatim>\<open>JobName\<close> of \<^verbatim>\<open>Job\<close> is declared outside
  \<^verbatim>\<open>manager.go\<close>. The spec makes a job's name the naming function of its application,
  release version, process type and instance index.
\<close>

definition JobName :: "Job \<Rightarrow> JobName" where
  "JobName j = newJobName (Job.AppName j) (Job.ReleaseVersion j) (Job.ProcessType j) (Job.Instance j)"

definition dot_free :: "string \<Rightarrow> bool" where
  "dot_free s = (CHR ''.'' \<notin> set s)"

section \<open>Job expansion\<close>

text \<open>The inner loop of \<^verbatim>\<open>buildJobs\<close>, \<^verbatim>\<open>for i := 1; i <= p.Quantity; i++\<close>, appending to
  \<^verbatim>\<open>jobs\<close>; the outer loop over the formation; and the function itself, which starts
  from the empty slice.\<close>

function buildJobs_instances ::
  "AppName \<Rightarrow> ReleaseVersion \<Rightarrow> Image \<Rightarrow> Vars \<Rightarrow> ProcessType \<Rightarrow> Process \<Rightarrow> int \<Rightarrow> Job list \<Rightarrow> Job list" where
  "buildJobs_instances name version img vars t p i jobs =
     (if i \<le> Quantity p then
        buildJobs_instances name version img vars t p (i + 1)
          (jobs @ [\<lparr>Job.AppName = name, Job.ReleaseVersion = version, Job.ProcessType = t,
                    Job.Instance = i, Job.Environment = vars, Job.Image = img,
                    Job.Command = Process.Command p\<rparr>])
      else jobs)"
  by pat_completeness auto
termination
  by (relation "measure (\<lambda>(name, version, img, vars, t, p, i, jobs). nat (Quantity p + 1 - i))") auto

declare buildJobs_instances.simps [simp del]

fun buildJobs_loop ::
  "AppName \<Rightarrow> ReleaseVersion \<Rightarrow> Image \<Rightarrow> Vars \<Rightarrow> (addr \<Rightarrow> Process) \<Rightarrow> Formation \<Rightarrow> Job list \<Rightarrow> Job list" where
  "buildJobs_loop name version img vars h [] jobs = jobs"
| "buildJobs_loop name version img vars h ((t, p) # f) jobs =
     buildJobs_loop name version img vars h f
       (buildJobs_instances name version img vars t (h p) 1 jobs)"

definition buildJobs ::
  "AppName \<Rightarrow> ReleaseVersion \<Rightarrow> Image \<Rightarrow> Vars \<Rightarrow> Formation \<Rightarrow> (addr \<Rightarrow> Process) \<Rightarrow> Job list" where
  "buildJobs name version img vars f h = buildJobs_loop name version img vars h f []"

text \<open>The job that \<^verbatim>\<open>buildJobs\<close> builds for instance \<open>i\<close> of process type \<open>t\<close> with
  process \<open>p\<close>.\<close>

definition expanded_job ::
  "AppName \<Rightarrow> ReleaseVersion \<Rightarrow> Image \<Rightarrow> Vars \<Rightarrow> ProcessType \<Rightarrow> Process \<Rightarrow> int \<Rightarrow> Job" where
  "expanded_job name version img vars t p i =
     \<lparr>Job.AppName = name, Job.ReleaseVersion = version, Job.ProcessType = t,
      Job.Instance = i, Job.Environment = vars, Job.Image = img,
      Job.Command = Process.Command p\<rparr>"

text \<open>The identity of a job: the four fields its name is derived from.\<close>

definition identity :: "Job \<Rightarrow> AppName \<times> ReleaseVersion \<times> ProcessType \<times> int" where
  "identity j = (Job.AppName j, Job.ReleaseVersion j, Job.ProcessType j, Job.Instance j)"

section \<open>The manager\<close>

text \<open>\<^verbatim>\<open>environment\<close> copies a \<^verbatim>\<open>Vars\<close> into a fresh \<^verbatim>\<open>map[string]string\<close>.\<close>

fun environment_loop :: "Vars \<Rightarrow> (string \<rightharpoonup> string) \<Rightarrow> (string \<rightharpoonup> string)" where
  "environment_loop [] env = env"
| "environment_loop ((k, v) # vars) env = environment_loop vars (env(k \<mapsto> v))"

definition environment :: "Vars \<Rightarrow> (string \<rightharpoonup> string)" where
  "environment vars = environment_loop vars Map.empty"

definition existingJobs :: "'w manager \<Rightarrow> AppName \<Rightarrow> 'w state \<Rightarrow> (error + Job list) \<times> 'w state" where
  "existingJobs m appName st = call_List m \<lparr>JobQuery.App = appName\<rparr> st"

text \<open>The descriptor that \<^verbatim>\<open>schedule\<close> submits for a job.\<close>

definition scheduler_job :: "Job \<Rightarrow> scheduler_Job" where
  "scheduler_job j =
     (let name = JobName j;
          env = environment (Job.Environment j);
          exec = \<lparr>scheduler_Execute.Command = Job.Command j,
                  scheduler_Execute.Image =
                    \<lparr>scheduler_Image.Repo = Image.Repo (Job.Image j),
                     scheduler_Image.ID = Image.ID (Job.Image j)\<rparr>\<rparr>
      in \<lparr>scheduler_Job.Name = name, scheduler_Job.Environment = env,
          scheduler_Job.Execute = exec\<rparr>)"

definition schedule :: "'w manager \<Rightarrow> Job \<Rightarrow> 'w state \<Rightarrow> error option \<times> 'w state" where
  "schedule m j st =
     (case call_Schedule m (scheduler_job j) st of
        (Some err, st1) \<Rightarrow> (Some err, st1)
      | (None, st1) \<Rightarrow>
          (case call_Add m j st1 of
             (Some err, st2) \<Rightarrow> (Some err, st2)
           | (None, st2) \<Rightarrow> (None, st2)))"

fun scheduleMulti :: "'w manager \<Rightarrow> Job list \<Rightarrow> 'w state \<Rightarrow> error option \<times> 'w state" where
  "scheduleMulti m [] st = (None, st)"
| "scheduleMulti m (j # jobs) st =
     (case schedule m j st of
        (Some err, st1) \<Rightarrow> (Some err, st1)
      | (None, st1) \<Rightarrow> scheduleMulti m jobs st1)"

definition unschedule :: "'w manager \<Rightarrow> Job \<Rightarrow> 'w state \<Rightarrow> error option \<times> 'w state" where
  "unschedule m j st =
     (case call_Unschedule m (JobName j) st of
        (Some err, st1) \<Rightarrow> (Some err, st1)
      | (None, st1) \<Rightarrow> call_Remove m j st1)"

fun unscheduleMulti :: "'w manager \<Rightarrow> Job list \<Rightarrow> 'w state \<Rightarrow> error option \<times> 'w state" where
  "unscheduleMulti m [] st = (None, st)"
| "unscheduleMulti m (j # jobs) st =
     (case unschedule m j st of
        (Some err, st1) \<Rightarrow> (Some err, st1)
      | (None, st1) \<Rightarrow> unscheduleMulti m jobs st1)"

text \<open>
  The body of the goroutine that \<^verbatim>\<open>ScheduleRelease\<close> starts: after the delay it
  unschedules the stale jobs and only logs a failure. \<^verbatim>\<open>ScheduleRelease\<close> itself starts
  the goroutine (recorded in \<open>spawned\<close>) and returns without running it.
\<close>

definition cleanup :: "'w manager \<Rightarrow> Job list \<Rightarrow> 'w state \<Rightarrow> 'w state" where
  "cleanup m existing st =
     (case unscheduleMulti m existing st of
        (Some (Error msg), st1) \<Rightarrow>
          st1\<lparr>logged := logged st1 @ [''Error unscheduling stale jobs: '' @ msg]\<rparr>
      | (None, st1) \<Rightarrow> st1)"

definition ScheduleRelease ::
  "'w manager \<Rightarrow> Release \<Rightarrow> Config \<Rightarrow> Slug \<Rightarrow> Formation \<Rightarrow> 'w state \<Rightarrow> error option \<times> 'w state" where
  "ScheduleRelease m release config slug formation st =
     (case existingJobs m (Release.AppName release) st of
        (Inl err, st1) \<Rightarrow> (Some err, st1)
      | (Inr existing, st1) \<Rightarrow>
          (let jobs = buildJobs (Release.AppName release) (Release.Ver release) (Slug.Image slug)
                        (Config.Vars config) formation (heap st1)
           in case scheduleMulti m jobs st1 of
                (Some err, st2) \<Rightarrow> (Some err, st2)
              | (None, st2) \<Rightarrow> (None, st2\<lparr>spawned := spawned st2 @ [existing]\<rparr>)))"

text \<open>The job that the scale-up loop of \<^verbatim>\<open>scaleProcess\<close> builds for instance \<open>i\<close>.\<close>

definition instance_job :: "Release \<Rightarrow> Config \<Rightarrow> Slug \<Rightarrow> ProcessType \<Rightarrow> Process \<Rightarrow> int \<Rightarrow> Job" where
  "instance_job release config slug t p i =
     \<lparr>Job.AppName = Release.AppName release, Job.ReleaseVersion = Release.Ver release,
      Job.ProcessType = t, Job.Instance = i, Job.Environment = Config.Vars config,
      Job.Image = Slug.Image slug, Job.Command = Process.Command p\<rparr>"

text \<open>The scale-up loop, \<^verbatim>\<open>for i := p.Quantity + 1; i <= q; i++\<close>, from counter \<open>i\<close> on.\<close>

function scaleUp_loop ::
  "'w manager \<Rightarrow> Release \<Rightarrow> Config \<Rightarrow> Slug \<Rightarrow> ProcessType \<Rightarrow> addr \<Rightarrow> int \<Rightarrow> int \<Rightarrow> 'w state
     \<Rightarrow> error option \<times> 'w state" where
  "scaleUp_loop m release config slug t p i q st =
     (if i \<le> q then
        (case schedule m (instance_job release config slug t (heap st p) i) st of
           (Some err, st1) \<Rightarrow> (Some err, st1)
         | (None, st1) \<Rightarrow> scaleUp_loop m release config slug t p (i + 1) q st1)
      else (None, st))"
  by pat_completeness auto
termination
  by (relation "measure (\<lambda>(m, release, config, slug, t, p, i, q, st). nat (q + 1 - i))") auto

declare scaleUp_loop.simps [simp del]

text \<open>The lookup map \<^verbatim>\<open>jm\<close> of the scale-down branch: a later job of the listing
  replaces an earlier one of the same name.\<close>

fun jm_loop :: "Job list \<Rightarrow> (JobName \<rightharpoonup> Job) \<Rightarrow> (JobName \<rightharpoonup> Job)" where
  "jm_loop [] jm = jm"
| "jm_loop (j # existing) jm = jm_loop existing (jm(JobName j \<mapsto> j))"

text \<open>The scale-down loop, \<^verbatim>\<open>for i := p.Quantity; i > q; i--\<close>, from counter \<open>i\<close> on. The
  error that \<^verbatim>\<open>m.unschedule(j)\<close> returns is dropped.\<close>

function scaleDown_loop ::
  "'w manager \<Rightarrow> Release \<Rightarrow> ProcessType \<Rightarrow> (JobName \<rightharpoonup> Job) \<Rightarrow> int \<Rightarrow> int \<Rightarrow> 'w state
     \<Rightarrow> error option \<times> 'w state" where
  "scaleDown_loop m release t jm i q st =
     (if i > q then
        (let jobName = newJobName (Release.AppName release) (Release.Ver release) t i
         in case jm jobName of
              Some j \<Rightarrow> scaleDown_loop m release t jm (i - 1) q (snd (unschedule m j st))
            | None \<Rightarrow> (Some (Error (''Job not found to unschedule: '' @ jobName)), st))
      else (None, st))"
  by pat_completeness auto
termination
  by (relation "measure (\<lambda>(m, release, t, jm, i, q, st). nat (i - q))") auto

declare scaleDown_loop.simps [simp del]

text \<open>The three parts of \<^verbatim>\<open>scaleProcess\<close>: the block under \<^verbatim>\<open>// Scale up\<close>, the block
  under \<^verbatim>\<open>// Scale down\<close>, and the update of the quantity, first in the process object
  and then in the repository.\<close>

definition scaleUp ::
  "'w manager \<Rightarrow> Release \<Rightarrow> Config \<Rightarrow> Slug \<Rightarrow> ProcessType \<Rightarrow> addr \<Rightarrow> int \<Rightarrow> 'w state
     \<Rightarrow> error option \<times> 'w state" where
  "scaleUp m release config slug t p q st =
     (if Quantity (heap st p) < q
      then scaleUp_loop m release config slug t p (Quantity (heap st p) + 1) q st
      else (None, st))"

definition scaleDown ::
  "'w manager \<Rightarrow> Release \<Rightarrow> ProcessType \<Rightarrow> addr \<Rightarrow> int \<Rightarrow> 'w state \<Rightarrow> error option \<times> 'w state" where
  "scaleDown m release t p q st =
     (if Quantity (heap st p) > q then
        (case existingJobs m (Release.AppName release) st of
           (Inl err, st1) \<Rightarrow> (Some err, st1)
         | (Inr existing, st1) \<Rightarrow>
             scaleDown_loop m release t (jm_loop existing Map.empty) (Quantity (heap st1 p)) q st1)
      else (None, st))"

definition updateQuantity :: "'w manager \<Rightarrow> addr \<Rightarrow> int \<Rightarrow> 'w state \<Rightarrow> error option \<times> 'w state" where
  "updateQuantity m p q st =
     (let st1 = st\<lparr>heap := (heap st)(p := (heap st p)\<lparr>Quantity := q\<rparr>)\<rparr>
      in case call_Update m (heap st1 p) st1 of ((_, err), st2) \<Rightarrow> (err, st2))"

definition scaleProcess ::
  "'w manager \<Rightarrow> Release \<Rightarrow> Config \<Rightarrow> Slug \<Rightarrow> ProcessType \<Rightarrow> addr \<Rightarrow> int \<Rightarrow> 'w state
     \<Rightarrow> error option \<times> 'w state" where
  "scaleProcess m release config slug t p q st =
     (case scaleUp m release config slug t p q st of
        (Some err, st1) \<Rightarrow> (Some err, st1)
      | (None, st1) \<Rightarrow>
          (case scaleDown m release t p q st1 of
             (Some err, st2) \<Rightarrow> (Some err, st2)
           | (None, st2) \<Rightarrow> updateQuantity m p q st2))"

text \<open>\<^verbatim>\<open>ScaleRelease\<close> ranges over the quantity map and looks each type up in the
  formation.\<close>

fun ScaleRelease ::
  "'w manager \<Rightarrow> Release \<Rightarrow> Config \<Rightarrow> Slug \<Rightarrow> Formation \<Rightarrow> ProcessQuantityMap \<Rightarrow> 'w state
     \<Rightarrow> error option \<times> 'w state" where
  "ScaleRelease m release config slug formation [] st = (None, st)"
| "ScaleRelease m release config slug formation ((t, q) # qm) st =
     (case map_of formation t of
        Some p \<Rightarrow>
          (case scaleProcess m release config slug t p q st of
             (Some err, st1) \<Rightarrow> (Some err, st1)
           | (None, st1) \<Rightarrow> ScaleRelease m release config slug formation qm st1)
      | None \<Rightarrow> ScaleRelease m release config slug formation qm st)"

text \<open>The lookup map \<^verbatim>\<open>jsm\<close> of \<^verbatim>\<open>JobStatesByApp\<close> and its loop over the tracked jobs.\<close>

fun jsm_loop ::
  "scheduler_JobState list \<Rightarrow> (JobName \<rightharpoonup> scheduler_JobState) \<Rightarrow> (JobName \<rightharpoonup> scheduler_JobState)" where
  "jsm_loop [] jsm = jsm"
| "jsm_loop (js # sjs) jsm = jsm_loop sjs (jsm(scheduler_JobState.Name js \<mapsto> js))"

definition job_state :: "(JobName \<rightharpoonup> scheduler_JobState) \<Rightarrow> Job \<Rightarrow> JobState" where
  "job_state jsm j =
     (let (machineID, state) =
            (case jsm (JobName j) of
               Some s \<Rightarrow> (scheduler_JobState.MachineID s, scheduler_JobState.State s)
             | None \<Rightarrow> (''unknown'', ''unknown''))
      in \<lparr>JobState.Job = j, JobState.Name = JobName j,
          JobState.MachineID = machineID, JobState.State = state\<rparr>)"

fun job_states_loop :: "(JobName \<rightharpoonup> scheduler_JobState) \<Rightarrow> Job list \<Rightarrow> JobState list" where
  "job_states_loop jsm [] = []"
| "job_states_loop jsm (j # jobs) = job_state jsm j # job_states_loop jsm jobs"

definition JobStatesByApp :: "'w manager \<Rightarrow> App \<Rightarrow> 'w state \<Rightarrow> (error + JobState list) \<times> 'w state" where
  "JobStatesByApp m app st =
     (case existingJobs m (App.Name app) st of
        (Inl err, st1) \<Rightarrow> (Inl err, st1)
      | (Inr jobs, st1) \<Rightarrow>
          (case call_JobStates m st1 of
             (Inl err, st2) \<Rightarrow> (Inl err, st2)
           | (Inr sjs, st2) \<Rightarrow> (Inr (job_states_loop (jsm_loop sjs Map.empty) jobs), st2)))"

section \<open>Observing a run\<close>

text \<open>
  The calls a run added to the record, from the state before it and the state after it;
  \<open>steps st tr st'\<close>: the run from \<open>st\<close> to \<open>st'\<close> made the calls \<open>tr\<close> and left the process
  store, the started goroutines and the log as they were.
\<close>

definition new_calls :: "'w state \<Rightarrow> 'w state \<Rightarrow> event list" where
  "new_calls st st' = drop (length (calls st)) (calls st')"

definition steps :: "'w state \<Rightarrow> event list \<Rightarrow> 'w state \<Rightarrow> bool" where
  "steps st tr st' \<longleftrightarrow>
     calls st' = calls st @ tr \<and> heap st' = heap st \<and> spawned st' = spawned st \<and>
     logged st' = logged st"

definition succeeded :: "event \<Rightarrow> bool" where
  "succeeded ev = (snd ev = None)"

text \<open>
  \<open>fail_fast expected r tr\<close>: a run that was to make the calls \<open>expected\<close> in this order,
  returned \<open>r\<close> and made the calls \<open>tr\<close>, stopped at the first failure. Either it returned
  \<^verbatim>\<open>nil\<close>, made every expected call and each succeeded; or it returned an error, which is
  the error of the last call it made, every call before that one succeeded, and the
  calls made are an initial part of the expected ones.
\<close>

definition fail_fast :: "call list \<Rightarrow> error option \<Rightarrow> event list \<Rightarrow> bool" where
  "fail_fast expected r tr =
     (case r of
        None \<Rightarrow> map fst tr = expected \<and> list_all succeeded tr
      | Some err \<Rightarrow>
          tr \<noteq> [] \<and> length tr \<le> length expected \<and> map fst tr = take (length tr) expected \<and>
          list_all succeeded (butlast tr) \<and> snd (last tr) = Some err)"

text \<open>The two calls by which \<^verbatim>\<open>schedule\<close> submits a job, and the two by which
  \<^verbatim>\<open>unschedule\<close> removes one.\<close>

definition job_calls :: "Job \<Rightarrow> call list" where
  "job_calls j = [Schedule (scheduler_job j), Add j]"

definition unjob_calls :: "Job \<Rightarrow> call list" where
  "unjob_calls j = [Unschedule (JobName j), Remove j]"

text \<open>The arguments of the calls of one method among a list of events, in order.\<close>

fun schedule_of :: "call \<Rightarrow> scheduler_Job list" where
  "schedule_of (Schedule j) = [j]"
| "schedule_of _ = []"

fun unschedule_of :: "call \<Rightarrow> JobName list" where
  "unschedule_of (Unschedule n) = [n]"
| "unschedule_of _ = []"

fun add_of :: "call \<Rightarrow> Job list" where
  "add_of (Add j) = [j]"
| "add_of _ = []"

fun remove_of :: "call \<Rightarrow> Job list" where
  "remove_of (Remove j) = [j]"
| "remove_of _ = []"

fun update_of :: "call \<Rightarrow> Process list" where
  "update_of (Update p) = [p]"
| "update_of _ = []"

definition scheduled :: "event list \<Rightarrow> scheduler_Job list" where
  "scheduled tr = concat (map (schedule_of \<circ> fst) tr)"

definition unscheduled :: "event list \<Rightarrow> JobName list" where
  "unscheduled tr = concat (map (unschedule_of \<circ> fst) tr)"

definition added :: "event list \<Rightarrow> Job list" where
  "added tr = concat (map (add_of \<circ> fst) tr)"

definition removed :: "event list \<Rightarrow> Job list" where
  "removed tr = concat (map (remove_of \<circ> fst) tr)"

definition updated :: "event list \<Rightarrow> Process list" where
  "updated tr = concat (map (update_of \<circ> fst) tr)"

text \<open>The entry of a scheduler snapshot that the lookup map holds for a name: the last
  one of that name.\<close>

definition snapshot_entry :: "scheduler_JobState list \<Rightarrow> JobName \<Rightarrow> scheduler_JobState option" where
  "snapshot_entry sjs n = find (\<lambda>s. scheduler_JobState.Name s = n) (rev sjs)"

text \<open>The name that the scale-down loop derives for instance \<open>i\<close> of a process type.\<close>

definition instance_name :: "Release \<Rightarrow> ProcessType \<Rightarrow> int \<Rightarrow> JobName" where
  "instance_name release t i = newJobName (Release.AppName release) (Release.Ver release) t i"

text \<open>The part of \<^verbatim>\<open>scaleProcess\<close> before the quantity is updated: the scale-up block
  followed, unless it returned, by the scale-down block.\<close>

definition reconcile ::
  "'w manager \<Rightarrow> Release \<Rightarrow> Config \<Rightarrow> Slug \<Rightarrow> ProcessType \<Rightarrow> addr \<Rightarrow> int \<Rightarrow> 'w state
     \<Rightarrow> error option \<times> 'w state" where
  "reconcile m release config slug t p q st =
     (case scaleUp m release config slug t p q st of
        (Some err, st1) \<Rightarrow> (Some err, st1)
      | (None, st1) \<Rightarrow> scaleDown m release t p q st1)"

section \<open>An in-memory cluster\<close>

text \<open>
  Collaborators to run the manager against on concrete inputs: a scheduler that keeps the
  submitted units, a jobs repository that keeps the tracked jobs and a processes
  repository that keeps the processes it was given. The scheduler refuses to schedule the
  names in \<open>rejected\<close> and to unschedule the names in \<open>stuck\<close>; the processes repository
  fails when \<open>update_fails\<close>.
\<close>

record cluster =
  units :: "scheduler_Job list"
  tracked :: "Job list"
  processes :: "Process list"

definition memory_manager :: "JobName list \<Rightarrow> JobName list \<Rightarrow> bool \<Rightarrow> cluster manager" where
  "memory_manager rejected stuck update_fails =
     \<lparr>Scheduler_Schedule = (\<lambda>j w.
        if scheduler_Job.Name j \<in> set rejected then (Some (Error ''rejected''), w)
        else (None, w\<lparr>units := units w @ [j]\<rparr>)),
      Scheduler_Unschedule = (\<lambda>n w.
        if n \<in> set stuck then (Some (Error ''stuck''), w)
        else (None, w\<lparr>units := filter (\<lambda>u. scheduler_Job.Name u \<noteq> n) (units w)\<rparr>)),
      Scheduler_JobStates = (\<lambda>w.
        (Inr (map (\<lambda>u. \<lparr>scheduler_JobState.Name = scheduler_Job.Name u,
                          scheduler_JobState.MachineID = ''machine-1'',
                          scheduler_JobState.State = ''running''\<rparr>) (units w)), w)),
      JobsRepository_List = (\<lambda>query w.
        (Inr (filter (\<lambda>j. Job.AppName j = JobQuery.App query) (tracked w)), w)),
      JobsRepository_Add = (\<lambda>j w. (None, w\<lparr>tracked := tracked w @ [j]\<rparr>)),
      JobsRepository_Remove = (\<lambda>j w.
        (None, w\<lparr>tracked := filter (\<lambda>k. JobName k \<noteq> JobName j) (tracked w)\<rparr>)),
      ProcessesRepository_Update = (\<lambda>p w.
        if update_fails then ((p, Some (Error ''update failed'')), w)
        else ((p, None), w\<lparr>processes := processes w @ [p]\<rparr>))\<rparr>"

text \<open>The example of the specification: application \<open>web\<close> at release 3, whose process
  type \<open>web\<close> lives at address 0 of the store.\<close>

definition web_release :: Release where
  "web_release = \<lparr>Release.AppName = ''web'', Release.Ver = 3\<rparr>"

definition web_config :: Config where
  "web_config = \<lparr>Config.Vars = [(''PORT'', ''80'')]\<rparr>"

definition web_slug :: Slug where
  "web_slug = \<lparr>Slug.Image = \<lparr>Image.Repo = ''remind101/web'', Image.ID = ''abc''\<rparr>\<rparr>"

definition web_formation :: Formation where
  "web_formation = [(''web'', 0)]"

definition web_job :: "int \<Rightarrow> Job" where
  "web_job i =
     instance_job web_release web_config web_slug ''web''
       \<lparr>Process.Quantity = 0, Process.Command = ''./web''\<rparr> i"

text \<open>A state in which the store holds process \<open>web\<close> with the given quantity and the
  cluster runs and tracks the given jobs.\<close>

definition web_state :: "int \<Rightarrow> Job list \<Rightarrow> cluster state" where
  "web_state n jobs =
     \<lparr>world = \<lparr>units = map scheduler_job jobs, tracked = jobs, processes = []\<rparr>,
      calls = [],
      heap = (\<lambda>a. \<lparr>Process.Quantity = n, Process.Command = ''./web''\<rparr>),
      spawned = [],
      logged = []\<rparr>"

section \<open>Naming: decimal formatting and the four fields\<close>

lemma digit_cases:
  "d < 10 \<Longrightarrow> d = 0 \<or> d = 1 \<or> d = 2 \<or> d = 3 \<or> d = 4 \<or> d = 5 \<or> d = 6 \<or> d = 7 \<or> d = 8 \<or> d = (9::nat)"
  by arith

lemma of_char_digit: "d < 10 \<Longrightarrow> (of_char (digit d) :: nat) = 48 + d"
  using digit_cases [of d] by (auto simp: digit_def)

lemma digit_inj:
  assumes "a < 10" "b < 10" "digit a = digit b"
  shows "a = b"
proof -
  have "(of_char (digit a) :: nat) = of_char (digit b)"
    using assms(3) by (rule arg_cong)
  then have "48 + a = 48 + b"
    by (simp only: of_char_digit [OF assms(1)] of_char_digit [OF assms(2)])
  then show ?thesis by arith
qed

lemma digit_not_dot: "d < 10 \<Longrightarrow> digit d \<noteq> CHR ''.''"
  using digit_cases [of d] by (auto simp: digit_def)

lemma digit_not_minus: "d < 10 \<Longrightarrow> digit d \<noteq> CHR ''-''"
  using digit_cases [of d] by (auto simp: digit_def)

lemma itoa_nat_not_Nil: "itoa_nat n \<noteq> []"
  by (subst itoa_nat.simps) simp

lemma itoa_nat_set: "c \<in> set (itoa_nat n) \<Longrightarrow> \<exists>d<10. c = digit d"
proof (induction n rule: itoa_nat.induct)
  case (1 n)
  show ?case
  proof (cases "n < 10")
    case True
    with "1.prems" show ?thesis by (subst (asm) itoa_nat.simps) auto
  next
    case False
    with "1.prems" have "c \<in> set (itoa_nat (n div 10)) \<or> c = digit (n mod 10)"
      by (subst (asm) itoa_nat.simps) auto
    then show ?thesis
    proof
      assume "c \<in> set (itoa_nat (n div 10))"
      with False "1.IH" show ?thesis by simp
    next
      assume "c = digit (n mod 10)"
      moreover have "n mod 10 < 10" by simp
      ultimately show ?thesis by blast
    qed
  qed
qed

lemma itoa_nat_no_dot: "CHR ''.'' \<notin> set (itoa_nat n)"
proof
  assume "CHR ''.'' \<in> set (itoa_nat n)"
  then obtain d where "d < 10" "CHR ''.'' = digit d"
    using itoa_nat_set by blast
  then show False using digit_not_dot [of d] by simp
qed

lemma itoa_nat_no_minus: "CHR ''-'' \<notin> set (itoa_nat n)"
proof
  assume "CHR ''-'' \<in> set (itoa_nat n)"
  then obtain d where "d < 10" "CHR ''-'' = digit d"
    using itoa_nat_set by blast
  then show False using digit_not_minus [of d] by simp
qed

lemma itoa_nat_inj: "itoa_nat a = itoa_nat b \<Longrightarrow> a = b"
proof (induction a arbitrary: b rule: itoa_nat.induct)
  case (1 n)
  show ?case
  proof (cases "n < 10")
    case n: True
    show ?thesis
    proof (cases "b < 10")
      case True
      with n "1.prems" show ?thesis
        by (simp add: itoa_nat.simps [of n] itoa_nat.simps [of b] digit_inj)
    next
      case False
      with n "1.prems" have "itoa_nat (b div 10) = []"
        by (simp add: itoa_nat.simps [of n] itoa_nat.simps [of b])
      then show ?thesis by (simp add: itoa_nat_not_Nil)
    qed
  next
    case n: False
    show ?thesis
    proof (cases "b < 10")
      case True
      with n "1.prems" have "itoa_nat (n div 10) = []"
        by (simp add: itoa_nat.simps [of n] itoa_nat.simps [of b])
      then show ?thesis by (simp add: itoa_nat_not_Nil)
    next
      case False
      with n "1.prems" have e: "itoa_nat (n div 10) = itoa_nat (b div 10)"
        and d: "digit (n mod 10) = digit (b mod 10)"
        by (simp_all add: itoa_nat.simps [of n] itoa_nat.simps [of b])
      from e n "1.IH" have "n div 10 = b div 10" by simp
      moreover from d have "n mod 10 = b mod 10" by (simp add: digit_inj)
      ultimately show ?thesis by (metis div_mult_mod_eq)
    qed
  qed
qed

lemma itoa_inj: "itoa a = itoa b \<Longrightarrow> a = b"
proof -
  assume e: "itoa a = itoa b"
  have nm: "hd (itoa_nat n) \<noteq> CHR ''-''" for n
  proof -
    have "hd (itoa_nat n) \<in> set (itoa_nat n)" by (simp add: itoa_nat_not_Nil)
    then show ?thesis using itoa_nat_no_minus [of n] by auto
  qed
  show ?thesis
  proof (cases "a < 0")
    case a: True
    show ?thesis
    proof (cases "b < 0")
      case True
      with a e have "nat (- a) = nat (- b)" by (simp add: itoa_def itoa_nat_inj)
      with a True show ?thesis by simp
    next
      case False
      with a e have "CHR ''-'' # itoa_nat (nat (- a)) = itoa_nat (nat b)" by (simp add: itoa_def)
      then have "hd (itoa_nat (nat b)) = CHR ''-''" by (metis list.sel(1))
      with nm show ?thesis by blast
    qed
  next
    case a: False
    show ?thesis
    proof (cases "b < 0")
      case True
      with a e have "itoa_nat (nat a) = CHR ''-'' # itoa_nat (nat (- b))" by (simp add: itoa_def)
      then have "hd (itoa_nat (nat a)) = CHR ''-''" by (metis list.sel(1))
      with nm show ?thesis by blast
    next
      case False
      with a e have "nat a = nat b" by (simp add: itoa_def itoa_nat_inj)
      with a False show ?thesis by simp
    qed
  qed
qed

lemma itoa_no_dot: "CHR ''.'' \<notin> set (itoa i)"
  by (simp add: itoa_def itoa_nat_no_dot)

text \<open>A separator that occurs in neither first part determines the split; likewise
  from the right.\<close>

lemma split_first:
  "c \<notin> set a \<Longrightarrow> c \<notin> set a' \<Longrightarrow> a @ c # r = a' @ c # r' \<Longrightarrow> a = a' \<and> r = r'"
proof (induction a arbitrary: a')
  case Nil
  then show ?case by (cases a') auto
next
  case (Cons x xs)
  then show ?case by (cases a') auto
qed

lemma split_last:
  assumes "c \<notin> set b" "c \<notin> set b'" "r @ c # b = r' @ c # b'"
  shows "r = r' \<and> b = b'"
proof -
  from assms(3) have "rev b @ c # rev r = rev b' @ c # rev r'"
    by (metis rev.simps(2) rev_append append_assoc append_Cons append_Nil)
  with assms(1,2) split_first [of c "rev b" "rev b'" "rev r" "rev r'"] show ?thesis by simp
qed

lemma newJobName_same_prefix: "newJobName a v t i = newJobName a v t i' \<Longrightarrow> i = i'"
  by (simp add: newJobName_def itoa_inj)

lemma itoa_digits:
  "itoa 0 = ''0''" "itoa 1 = ''1''" "itoa 2 = ''2''" "itoa 3 = ''3''" "itoa 4 = ''4''"
  by (simp_all add: itoa_def itoa_nat.simps digit_def)

text \<open>
  C2 (counterexample). The claim makes \<^verbatim>\<open>newJobName\<close> injective over all tuples. A dot
  inside the application name or the process type moves the field boundaries:
  application \<open>a.1\<close> at version 2 with process type \<open>b\<close> and application \<open>a\<close> at version 1
  with process type \<open>2.b\<close> both give the name \<open>a.1.2.b.1\<close> for instance 1.
\<close>

theorem newJobName_collision:
  "newJobName ''a.1'' 2 ''b'' 1 = newJobName ''a'' 1 ''2.b'' 1 \<and>
   (''a.1'', 2 :: int, ''b'', 1 :: int) \<noteq> (''a'', 1, ''2.b'', 1)"
  by (simp add: newJobName_def itoa_digits)

text \<open>
  C2 (amended). \<^verbatim>\<open>newJobName\<close> is a function of its four arguments, the name being the
  four fields joined by dots, and it is injective over tuples whose application names
  contain no dot, and over tuples whose process types contain no dot: two such tuples
  have equal names exactly when they are equal.
\<close>

theorem newJobName_injective:
  assumes "(dot_free n \<and> dot_free n') \<or> (dot_free t \<and> dot_free t')"
  shows "newJobName n v t i = n @ ''.'' @ itoa v @ ''.'' @ t @ ''.'' @ itoa i \<and>
         (newJobName n v t i = newJobName n' v' t' i' \<longleftrightarrow> (n, v, t, i) = (n', v', t', i'))"
proof -
  have "(n, v, t, i) = (n', v', t', i')" if e: "newJobName n v t i = newJobName n' v' t' i'"
  proof -
    from e have e1: "n @ CHR ''.'' # (itoa v @ CHR ''.'' # (t @ CHR ''.'' # itoa i)) =
                     n' @ CHR ''.'' # (itoa v' @ CHR ''.'' # (t' @ CHR ''.'' # itoa i'))"
      by (simp add: newJobName_def)
    from e have e2: "(n @ CHR ''.'' # itoa v @ CHR ''.'' # t) @ CHR ''.'' # itoa i =
                     (n' @ CHR ''.'' # itoa v' @ CHR ''.'' # t') @ CHR ''.'' # itoa i'"
      by (simp add: newJobName_def)
    from assms show ?thesis
    proof
      assume d: "dot_free n \<and> dot_free n'"
      with e1 have n: "n = n'"
        and r1: "itoa v @ CHR ''.'' # (t @ CHR ''.'' # itoa i) = itoa v' @ CHR ''.'' # (t' @ CHR ''.'' # itoa i')"
        using split_first [of "CHR ''.''" n n'] by (simp_all add: dot_free_def)
      from r1 have v: "itoa v = itoa v'" and r2: "t @ CHR ''.'' # itoa i = t' @ CHR ''.'' # itoa i'"
        using split_first [of "CHR ''.''" "itoa v" "itoa v'"] by (simp_all add: itoa_no_dot)
      from r2 have "t = t'" "itoa i = itoa i'"
        using split_last [of "CHR ''.''" "itoa i" "itoa i'" t t'] by (simp_all add: itoa_no_dot)
      with n v show ?thesis by (simp add: itoa_inj)
    next
      assume d: "dot_free t \<and> dot_free t'"
      have nd: "CHR ''.'' \<notin> set (itoa i)" "CHR ''.'' \<notin> set (itoa i')"
        "CHR ''.'' \<notin> set (itoa v)" "CHR ''.'' \<notin> set (itoa v')"
        by (rule itoa_no_dot)+
      from d have td: "CHR ''.'' \<notin> set t" "CHR ''.'' \<notin> set t'"
        by (simp_all add: dot_free_def)
      from split_last [OF nd(1) nd(2) e2] have i: "itoa i = itoa i'"
        and r1: "n @ CHR ''.'' # itoa v @ CHR ''.'' # t = n' @ CHR ''.'' # itoa v' @ CHR ''.'' # t'"
        by simp_all
      from r1 have "(n @ CHR ''.'' # itoa v) @ CHR ''.'' # t = (n' @ CHR ''.'' # itoa v') @ CHR ''.'' # t'"
        by simp
      from split_last [OF td(1) td(2) this] have t: "t = t'"
        and r2: "n @ CHR ''.'' # itoa v = n' @ CHR ''.'' # itoa v'"
        by simp_all
      from split_last [OF nd(3) nd(4) r2] have "n = n'" "itoa v = itoa v'"
        by simp_all
      with i t show ?thesis by (simp add: itoa_inj)
    qed
  qed
  then show ?thesis by (auto simp: newJobName_def)
qed

theorem newJobName_injective_witness:
  "((dot_free ''web'' \<and> dot_free ''web'') \<or> (dot_free ''web'' \<and> dot_free ''worker'')) \<and>
   newJobName ''web'' 3 ''web'' 2 = ''web.3.web.2'' \<and>
   newJobName ''web'' 3 ''web'' 2 \<noteq> newJobName ''web'' 3 ''worker'' 2"
  using newJobName_injective [of "''web''" "''web''" "''web''" "''worker''" 3 2 3 2]
  by (simp add: dot_free_def itoa_digits newJobName_def)

text \<open>Unfolding a run on a concrete input.\<close>

lemmas run_defs =
  scaleProcess_def scaleUp_def scaleDown_def updateQuantity_def scaleUp_loop.simps
  scaleDown_loop.simps schedule_def unschedule_def existingJobs_def
  call_Schedule_def call_Unschedule_def call_JobStates_def call_List_def call_Add_def
  call_Remove_def call_Update_def failure_def memory_manager_def
  instance_job_def scheduler_job_def JobName_def newJobName_def itoa_digits
  environment_def new_calls_def succeeded_def instance_name_def reconcile_def Let_def
  scheduled_def unscheduled_def added_def removed_def updated_def

lemmas web_defs =
  web_release_def web_config_def web_slug_def web_formation_def web_job_def web_state_def

section \<open>Job expansion: what the loops build\<close>

lemma buildJobs_instances_eq:
  "buildJobs_instances name version img vars t p i jobs =
     jobs @ map (expanded_job name version img vars t p) [i..Quantity p]"
proof (induction name version img vars t p i jobs rule: buildJobs_instances.induct)
  case (1 name version img vars t p i jobs)
  show ?case
  proof (cases "i \<le> Quantity p")
    case True
    then have "[i..Quantity p] = i # [i + 1..Quantity p]" by (rule upto_rec1)
    with True "1.IH" [OF True] show ?thesis
      by (subst buildJobs_instances.simps) (simp add: expanded_job_def)
  next
    case False
    then show ?thesis by (subst buildJobs_instances.simps) simp
  qed
qed

lemma buildJobs_loop_eq:
  "buildJobs_loop name version img vars h f jobs =
     jobs @ concat (map (\<lambda>(t, p). map (expanded_job name version img vars t (h p)) [1..Quantity (h p)]) f)"
  by (induction f arbitrary: jobs) (auto simp: buildJobs_instances_eq)

lemma buildJobs_Nil: "buildJobs name version img vars [] h = []"
  by (simp add: buildJobs_def)

lemma buildJobs_Cons:
  "buildJobs name version img vars ((t, p) # f) h =
     map (expanded_job name version img vars t (h p)) [1..Quantity (h p)]
     @ buildJobs name version img vars f h"
  by (simp add: buildJobs_def buildJobs_loop_eq)

lemma buildJobs_types:
  "j \<in> set (buildJobs name version img vars f h) \<Longrightarrow> Job.ProcessType j \<in> fst ` set f"
  by (induction f) (auto simp: buildJobs_Nil buildJobs_Cons expanded_job_def)

lemma buildJobs_length:
  "length (buildJobs name version img vars f h) = (\<Sum>(t, p)\<leftarrow>f. nat (Quantity (h p)))"
  by (induction f) (auto simp: buildJobs_Nil buildJobs_Cons)

lemma filter_other_type:
  "t \<notin> fst ` set f \<Longrightarrow>
     filter (\<lambda>j. Job.ProcessType j = t) (buildJobs name version img vars f h) = []"
  using buildJobs_types [of _ name version img vars f h] by (auto simp: filter_empty_conv)

lemma filter_expanded:
  "filter (\<lambda>j. Job.ProcessType j = t) (map (expanded_job name version img vars t' p) xs) =
     (if t' = t then map (expanded_job name version img vars t' p) xs else [])"
  by (induction xs) (auto simp: expanded_job_def)

lemma buildJobs_filter:
  "distinct (map fst f) \<Longrightarrow> (t, p) \<in> set f \<Longrightarrow>
     filter (\<lambda>j. Job.ProcessType j = t) (buildJobs name version img vars f h) =
       map (expanded_job name version img vars t (h p)) [1..Quantity (h p)]"
proof (induction f)
  case Nil
  then show ?case by simp
next
  case (Cons a f)
  obtain t' p' where a: "a = (t', p')" by (cases a)
  show ?case
  proof (cases "t' = t")
    case True
    with Cons.prems a have "p' = p" and "t \<notin> fst ` set f" by (auto simp: image_iff)
    with True a show ?thesis by (simp add: buildJobs_Cons filter_expanded filter_other_type)
  next
    case False
    with Cons a show ?thesis by (simp add: buildJobs_Cons filter_expanded)
  qed
qed

lemma buildJobs_distinct:
  "distinct (map fst f) \<Longrightarrow> distinct (map identity (buildJobs name version img vars f h))"
proof (induction f)
  case Nil
  show ?case by (simp add: buildJobs_Nil)
next
  case (Cons a f)
  obtain t p where a: "a = (t, p)" by (cases a)
  from Cons.prems a have t: "t \<notin> fst ` set f" and d: "distinct (map fst f)" by simp_all
  have d1: "distinct (map (\<lambda>i. (name, version, t, i)) [1..Quantity (h p)])"
    by (simp add: distinct_map inj_on_def)
  have "x \<notin> set (map identity (buildJobs name version img vars f h))"
    if "x \<in> set (map (\<lambda>i. (name, version, t, i)) [1..Quantity (h p)])" for x
  proof
    assume "x \<in> set (map identity (buildJobs name version img vars f h))"
    then obtain j where j: "j \<in> set (buildJobs name version img vars f h)" "x = identity j"
      by auto
    from buildJobs_types [OF j(1)] have "Job.ProcessType j \<in> fst ` set f" .
    moreover from that j(2) have "Job.ProcessType j = t" by (auto simp: identity_def)
    ultimately show False using t by simp
  qed
  then have disj: "set (map (\<lambda>i. (name, version, t, i)) [1..Quantity (h p)]) \<inter>
                   set (map identity (buildJobs name version img vars f h)) = {}"
    by blast
  have "map identity (buildJobs name version img vars (a # f) h) =
          map (\<lambda>i. (name, version, t, i)) [1..Quantity (h p)]
          @ map identity (buildJobs name version img vars f h)"
    by (simp add: a buildJobs_Cons identity_def expanded_job_def comp_def)
  with d1 Cons.IH [OF d] disj show ?case
    by (simp only: distinct_append)
qed

text \<open>
  C1. For a formation (a Go map, so with distinct process types) \<^verbatim>\<open>buildJobs\<close> returns as
  many jobs as the process quantities add up to, a quantity that is not positive counting
  for none. For each process type of the formation, with quantity \<open>n\<close>, the jobs of that
  type are exactly one job per instance index from 1 through \<open>n\<close>, in this order, each
  with the given application name, version, image and variables and the command of that
  process; every job returned is of a process type of the formation; and no two jobs
  returned have the same identity (application, version, process type, instance).
\<close>

theorem buildJobs_expansion:
  assumes "distinct (map fst f)"
  shows "length (buildJobs name version img vars f h) = (\<Sum>(t, p)\<leftarrow>f. nat (Quantity (h p))) \<and>
         (\<forall>(t, p)\<in>set f.
            filter (\<lambda>j. Job.ProcessType j = t) (buildJobs name version img vars f h) =
              map (expanded_job name version img vars t (h p)) [1..Quantity (h p)]) \<and>
         (\<forall>j\<in>set (buildJobs name version img vars f h). Job.ProcessType j \<in> fst ` set f) \<and>
         distinct (map identity (buildJobs name version img vars f h))"
  using assms buildJobs_length buildJobs_filter buildJobs_types buildJobs_distinct
  by (auto simp del: map_map)

theorem buildJobs_expansion_witness:
  "distinct (map fst [(''web'', 0 :: nat), (''worker'', 1), (''clock'', 2)]) \<and>
   map JobName
     (buildJobs ''web'' 3 (Slug.Image web_slug) (Config.Vars web_config)
        [(''web'', 0), (''worker'', 1), (''clock'', 2)]
        (\<lambda>a. if a = 0 then \<lparr>Process.Quantity = 2, Process.Command = ''./web''\<rparr>
              else if a = 1 then \<lparr>Process.Quantity = 1, Process.Command = ''./worker''\<rparr>
              else \<lparr>Process.Quantity = 0, Process.Command = ''./clock''\<rparr>)) =
     [''web.3.web.1'', ''web.3.web.2'', ''web.3.worker.1''] \<and>
   map Job.Command
     (buildJobs ''web'' 3 (Slug.Image web_slug) (Config.Vars web_config)
        [(''web'', 0), (''worker'', 1), (''clock'', 2)]
        (\<lambda>a. if a = 0 then \<lparr>Process.Quantity = 2, Process.Command = ''./web''\<rparr>
              else if a = 1 then \<lparr>Process.Quantity = 1, Process.Command = ''./worker''\<rparr>
              else \<lparr>Process.Quantity = 0, Process.Command = ''./clock''\<rparr>)) =
     [''./web'', ''./web'', ''./worker'']"
  using buildJobs_expansion [where f = "[(''web'', 0), (''worker'', 1), (''clock'', 2)]"
          and name = "''web''" and version = 3 and img = "Slug.Image web_slug"
          and vars = "Config.Vars web_config"
          and h = "\<lambda>a. if a = 0 then \<lparr>Process.Quantity = 2, Process.Command = ''./web''\<rparr>
              else if a = 1 then \<lparr>Process.Quantity = 1, Process.Command = ''./worker''\<rparr>
              else \<lparr>Process.Quantity = 0, Process.Command = ''./clock''\<rparr>"]
  by (simp add: run_defs web_defs buildJobs_def buildJobs_instances.simps expanded_job_def
        identity_def upto.simps)

section \<open>Runs and their calls\<close>

lemma steps_refl: "steps st [] st"
  by (simp add: steps_def)

lemma steps_trans: "steps a t1 b \<Longrightarrow> steps b t2 c \<Longrightarrow> steps a (t1 @ t2) c"
  by (simp add: steps_def)


lemma fail_fast_Nil: "fail_fast [] None []"
  by (simp add: fail_fast_def)

lemma fail_fast_append_ok:
  assumes "fail_fast xs None t1" "fail_fast ys r t2"
  shows "fail_fast (xs @ ys) r (t1 @ t2)"
proof (cases r)
  case None
  with assms show ?thesis by (simp add: fail_fast_def)
next
  case (Some err)
  from assms(1) have l: "length t1 = length xs" and m: "map fst t1 = xs" and s: "list_all succeeded t1"
    by (auto simp: fail_fast_def dest: arg_cong [where f = length])
  from assms(2) Some have n: "t2 \<noteq> []" and le: "length t2 \<le> length ys"
    and mt: "map fst t2 = take (length t2) ys" and sb: "list_all succeeded (butlast t2)"
    and e: "snd (last t2) = Some err"
    by (simp_all add: fail_fast_def)
  from n have "butlast (t1 @ t2) = t1 @ butlast t2" by (simp add: butlast_append)
  with s sb have "list_all succeeded (butlast (t1 @ t2))" by simp
  moreover from l m mt have "map fst (t1 @ t2) = take (length (t1 @ t2)) (xs @ ys)" by simp
  ultimately show ?thesis using Some n le l e by (simp add: fail_fast_def)
qed

lemma fail_fast_append_err:
  assumes "fail_fast xs (Some err) t1"
  shows "fail_fast (xs @ ys) (Some err) t1"
  using assms by (simp add: fail_fast_def)

lemma call_Schedule_steps:
  "call_Schedule m j st = (r, st') \<Longrightarrow> steps st [(Schedule j, r)] st'"
  by (auto simp: call_Schedule_def steps_def split: prod.splits)

lemma call_Add_steps:
  "call_Add m j st = (r, st') \<Longrightarrow> steps st [(Add j, r)] st'"
  by (auto simp: call_Add_def steps_def split: prod.splits)

lemma call_Unschedule_steps:
  "call_Unschedule m n st = (r, st') \<Longrightarrow> steps st [(Unschedule n, r)] st'"
  by (auto simp: call_Unschedule_def steps_def split: prod.splits)

lemma call_Remove_steps:
  "call_Remove m j st = (r, st') \<Longrightarrow> steps st [(Remove j, r)] st'"
  by (auto simp: call_Remove_def steps_def split: prod.splits)

lemma call_List_steps:
  "call_List m query st = (r, st') \<Longrightarrow> steps st [(ListJobs query, failure r)] st'"
  by (auto simp: call_List_def steps_def split: prod.splits)

lemma call_JobStates_steps:
  "call_JobStates m st = (r, st') \<Longrightarrow> steps st [(JobStates, failure r)] st'"
  by (auto simp: call_JobStates_def steps_def split: prod.splits)

lemma schedule_run:
  assumes "schedule m j st = (r, st')"
  shows "\<exists>tr. steps st tr st' \<and> fail_fast (job_calls j) r tr"
proof (cases "call_Schedule m (scheduler_job j) st")
  case (Pair r1 st1)
  note s1 = call_Schedule_steps [OF Pair]
  show ?thesis
  proof (cases r1)
    case (Some err)
    with Pair assms have "r = Some err" "st' = st1" by (simp_all add: schedule_def)
    with s1 Some show ?thesis
      by (intro exI [of _ "[(Schedule (scheduler_job j), Some err)]"])
         (simp add: fail_fast_def job_calls_def)
  next
    case None
    obtain r2 st2 where a: "call_Add m j st1 = (r2, st2)" by (cases "call_Add m j st1")
    note s2 = call_Add_steps [OF a]
    from Pair None a assms have "r = r2" "st' = st2"
      by (auto simp: schedule_def split: option.splits)
    moreover from s1 s2 None have "steps st [(Schedule (scheduler_job j), None), (Add j, r2)] st2"
      using steps_trans by fastforce
    moreover have "fail_fast (job_calls j) r2 [(Schedule (scheduler_job j), None), (Add j, r2)]"
      by (cases r2) (simp_all add: fail_fast_def job_calls_def succeeded_def)
    ultimately show ?thesis by blast
  qed
qed

lemma scheduleMulti_run:
  "scheduleMulti m jobs st = (r, st') \<Longrightarrow>
     \<exists>tr. steps st tr st' \<and> fail_fast (concat (map job_calls jobs)) r tr"
proof (induction jobs arbitrary: st)
  case Nil
  then show ?case using steps_refl fail_fast_Nil by fastforce
next
  case (Cons j jobs)
  obtain r1 st1 where s: "schedule m j st = (r1, st1)" by (cases "schedule m j st")
  from schedule_run [OF s] obtain t1 where t1: "steps st t1 st1" "fail_fast (job_calls j) r1 t1"
    by blast
  show ?case
  proof (cases r1)
    case (Some err)
    with s Cons.prems have "r = Some err" "st' = st1" by simp_all
    with t1 Some show ?thesis using fail_fast_append_err by fastforce
  next
    case None
    with s Cons.prems have "scheduleMulti m jobs st1 = (r, st')" by simp
    from Cons.IH [OF this] obtain t2 where
      t2: "steps st1 t2 st'" "fail_fast (concat (map job_calls jobs)) r t2" by blast
    from t1 t2 None have "steps st (t1 @ t2) st'"
      and "fail_fast (job_calls j @ concat (map job_calls jobs)) r (t1 @ t2)"
      using steps_trans fail_fast_append_ok by blast+
    then show ?thesis by auto
  qed
qed


lemma call_Update_steps:
  "call_Update m p st = (r, st') \<Longrightarrow> steps st [(Update p, snd r)] st'"
  by (auto simp: call_Update_def steps_def split: prod.splits)

lemma unschedule_run:
  assumes "unschedule m j st = (r, st')"
  shows "\<exists>tr. steps st tr st' \<and> fail_fast (unjob_calls j) r tr"
proof (cases "call_Unschedule m (JobName j) st")
  case (Pair r1 st1)
  note s1 = call_Unschedule_steps [OF Pair]
  show ?thesis
  proof (cases r1)
    case (Some err)
    with Pair assms have "r = Some err" "st' = st1" by (simp_all add: unschedule_def)
    with s1 Some show ?thesis
      by (intro exI [of _ "[(Unschedule (JobName j), Some err)]"])
         (simp add: fail_fast_def unjob_calls_def)
  next
    case None
    with Pair assms have a: "call_Remove m j st1 = (r, st')" by (simp add: unschedule_def)
    note s2 = call_Remove_steps [OF a]
    from s1 s2 None have "steps st [(Unschedule (JobName j), None), (Remove j, r)] st'"
      using steps_trans by fastforce
    moreover have "fail_fast (unjob_calls j) r [(Unschedule (JobName j), None), (Remove j, r)]"
      by (cases r) (simp_all add: fail_fast_def unjob_calls_def succeeded_def)
    ultimately show ?thesis by blast
  qed
qed

lemma schedule_heap: "schedule m j st = (r, st') \<Longrightarrow> heap st' = heap st"
  using schedule_run [of m j st r st'] by (auto simp: steps_def)

lemma scaleUp_loop_scheduleMulti:
  "scaleUp_loop m release config slug t p i q st =
     scheduleMulti m (map (instance_job release config slug t (heap st p)) [i..q]) st"
proof (induction m release config slug t p i q st rule: scaleUp_loop.induct)
  case (1 m release config slug t p i q st)
  show ?case
  proof (cases "i \<le> q")
    case False
    then show ?thesis by (simp add: scaleUp_loop.simps [of _ _ _ _ _ _ i])
  next
    case True
    then have u: "[i..q] = i # [i + 1..q]" by (rule upto_rec1)
    obtain r1 st1 where s: "schedule m (instance_job release config slug t (heap st p) i) st = (r1, st1)"
      by (cases "schedule m (instance_job release config slug t (heap st p) i) st")
    show ?thesis
    proof (cases r1)
      case (Some err)
      with s True u show ?thesis by (simp add: scaleUp_loop.simps [of _ _ _ _ _ _ i])
    next
      case None
      from schedule_heap [OF s] have h: "heap st1 = heap st" .
      from "1.IH" [OF True s [symmetric] None] h
      have "scaleUp_loop m release config slug t p (i + 1) q st1 =
            scheduleMulti m (map (instance_job release config slug t (heap st p)) [i + 1..q]) st1"
        by simp
      with s None True u show ?thesis by (simp add: scaleUp_loop.simps [of _ _ _ _ _ _ i])
    qed
  qed
qed

lemma scaleUp_run:
  assumes "scaleUp m release config slug t p q st = (r, st')"
  shows "\<exists>tr. steps st tr st' \<and>
           fail_fast (concat (map (\<lambda>i. job_calls (instance_job release config slug t (heap st p) i))
                                  [Quantity (heap st p) + 1..q])) r tr"
proof (cases "Quantity (heap st p) < q")
  case True
  with assms have "scheduleMulti m (map (instance_job release config slug t (heap st p))
                     [Quantity (heap st p) + 1..q]) st = (r, st')"
    by (simp add: scaleUp_def scaleUp_loop_scheduleMulti)
  from scheduleMulti_run [OF this] show ?thesis by (simp add: comp_def)
next
  case False
  with assms have "r = None" "st' = st" by (simp_all add: scaleUp_def)
  moreover from False have "[Quantity (heap st p) + 1..q] = []" by simp
  ultimately show ?thesis using steps_refl fail_fast_Nil by fastforce
qed

lemma updateQuantity_run:
  assumes "updateQuantity m p q st = (r, st')"
  shows "calls st' = calls st @ [(Update ((heap st p)\<lparr>Quantity := q\<rparr>), r)] \<and>
         heap st' = (heap st)(p := (heap st p)\<lparr>Quantity := q\<rparr>) \<and>
         spawned st' = spawned st \<and> logged st' = logged st"
proof -
  let ?st1 = "st\<lparr>heap := (heap st)(p := (heap st p)\<lparr>Quantity := q\<rparr>)\<rparr>"
  obtain x st2 where c: "call_Update m (heap ?st1 p) ?st1 = (x, st2)"
    by (cases "call_Update m (heap ?st1 p) ?st1")
  from assms c have "r = snd x" "st' = st2"
    by (auto simp: updateQuantity_def Let_def split: prod.splits)
  with call_Update_steps [OF c] show ?thesis by (simp add: steps_def)
qed

lemma fail_fast_all_succeeded: "fail_fast expected r tr \<Longrightarrow> list_all succeeded tr \<Longrightarrow> r = None"
proof (cases r)
  case None
  then show ?thesis by simp
next
  case (Some err)
  assume "fail_fast expected r tr" "list_all succeeded tr"
  with Some have "tr \<noteq> []" "snd (last tr) = Some err" "succeeded (last tr)"
    by (auto simp: fail_fast_def list_all_iff)
  then show ?thesis by (simp add: succeeded_def)
qed


lemma fail_fast_calls: "fail_fast expected r tr \<Longrightarrow> set (map fst tr) \<subseteq> set expected"
proof (cases r)
  case None
  assume "fail_fast expected r tr"
  with None show ?thesis by (simp add: fail_fast_def)
next
  case (Some err)
  assume "fail_fast expected r tr"
  with Some have "map fst tr = take (length tr) expected" by (simp add: fail_fast_def)
  then show ?thesis by (metis set_take_subset)
qed

lemma job_calls_no_removal:
  "c \<in> set (concat (map job_calls jobs)) \<Longrightarrow>
     unschedule_of c = [] \<and> remove_of c = [] \<and> update_of c = []"
  by (auto simp: job_calls_def)

lemma unjob_calls_no_submission:
  "c \<in> set (unjob_calls j) \<Longrightarrow> schedule_of c = [] \<and> add_of c = [] \<and> update_of c = []"
  by (auto simp: unjob_calls_def)

lemma concat_map_Nil: "(\<And>x. x \<in> set xs \<Longrightarrow> f x = []) \<Longrightarrow> concat (map f xs) = []"
  by (induction xs) simp_all

lemma projections_map:
  "scheduled tr = concat (map schedule_of (map fst tr))"
  "unscheduled tr = concat (map unschedule_of (map fst tr))"
  "added tr = concat (map add_of (map fst tr))"
  "removed tr = concat (map remove_of (map fst tr))"
  "updated tr = concat (map update_of (map fst tr))"
  by (simp_all add: scheduled_def unscheduled_def added_def removed_def updated_def)

lemma projections_append:
  "scheduled (a @ b) = scheduled a @ scheduled b"
  "unscheduled (a @ b) = unscheduled a @ unscheduled b"
  "added (a @ b) = added a @ added b"
  "removed (a @ b) = removed a @ removed b"
  "updated (a @ b) = updated a @ updated b"
  by (simp_all add: scheduled_def unscheduled_def added_def removed_def updated_def)

lemma submissions_no_removal:
  assumes "fail_fast (concat (map job_calls jobs)) r tr"
  shows "unscheduled tr = [] \<and> removed tr = [] \<and> updated tr = []"
proof -
  from fail_fast_calls [OF assms] job_calls_no_removal
  have "\<And>c. c \<in> set (map fst tr) \<Longrightarrow> unschedule_of c = [] \<and> remove_of c = [] \<and> update_of c = []"
    by blast
  then show ?thesis by (simp add: projections_map concat_map_Nil)
qed

section \<open>Scaling up\<close>



section \<open>Rolling out a release\<close>

lemma ScheduleRelease_submissions:
  assumes "existingJobs m (Release.AppName release) st = (Inr existing, st1)"
  shows "case ScheduleRelease m release config slug formation st of (r, st') \<Rightarrow>
           fail_fast
             (concat (map job_calls
                (buildJobs (Release.AppName release) (Release.Ver release) (Slug.Image slug)
                   (Config.Vars config) formation (heap st))))
             r (new_calls st1 st') \<and>
           unscheduled (new_calls st1 st') = [] \<and> removed (new_calls st1 st') = [] \<and>
           (list_all succeeded (new_calls st1 st') \<longrightarrow> r = None) \<and>
           spawned st' = (if r = None then spawned st @ [existing] else spawned st)"
proof -
  let ?jobs = "buildJobs (Release.AppName release) (Release.Ver release) (Slug.Image slug)
                 (Config.Vars config) formation (heap st)"
  from assms have l: "steps st [(ListJobs \<lparr>JobQuery.App = Release.AppName release\<rparr>, None)] st1"
    using call_List_steps [of m _ st "Inr existing" st1] by (simp add: existingJobs_def failure_def)
  then have h: "heap st1 = heap st" and sp: "spawned st1 = spawned st" by (simp_all add: steps_def)
  obtain r st2 where sm: "scheduleMulti m ?jobs st1 = (r, st2)"
    by (cases "scheduleMulti m ?jobs st1")
  from scheduleMulti_run [OF sm] obtain tr where
    tr: "steps st1 tr st2" "fail_fast (concat (map job_calls ?jobs)) r tr" by blast
  let ?st' = "if r = None then st2\<lparr>spawned := spawned st2 @ [existing]\<rparr> else st2"
  from assms sm h have res: "ScheduleRelease m release config slug formation st = (r, ?st')"
    by (cases r) (simp_all add: ScheduleRelease_def)
  from tr(1) have n: "new_calls st1 ?st' = tr" by (simp add: new_calls_def steps_def)
  from tr(1) sp have s: "spawned ?st' = (if r = None then spawned st @ [existing] else spawned st)"
    by (simp add: steps_def)
  from tr(2) have "list_all succeeded tr \<longrightarrow> r = None"
    using fail_fast_all_succeeded by blast
  with res n s tr(2) submissions_no_removal [OF tr(2)] show ?thesis by simp
qed

text \<open>
  C6. \<^verbatim>\<open>ScheduleRelease\<close> returns the error of the listing of the existing jobs when
  that fails, without a submission. Otherwise it submits the jobs of the new generation
  one after the other, each to the scheduler and then to the jobs repository, in the
  order of \<^verbatim>\<open>buildJobs\<close>, and stops at the first failure: the calls it makes after the
  listing are fail-fast for that sequence, so a returned error is the error of the last
  call made and no call follows it. It never unschedules or removes a job, so nothing
  submitted is rolled back. When every submission succeeds it returns \<^verbatim>\<open>nil\<close> and has
  started the clean-up goroutine for the listed jobs; the goroutine runs after the
  return, so its outcome cannot reach the result. On an error no goroutine is started.
\<close>

theorem ScheduleRelease_sequential:
  "case existingJobs m (Release.AppName release) st of
     (Inl err, st1) \<Rightarrow> ScheduleRelease m release config slug formation st = (Some err, st1)
   | (Inr existing, st1) \<Rightarrow>
       (case ScheduleRelease m release config slug formation st of (r, st') \<Rightarrow>
          fail_fast
            (concat (map job_calls
               (buildJobs (Release.AppName release) (Release.Ver release) (Slug.Image slug)
                  (Config.Vars config) formation (heap st))))
            r (new_calls st1 st') \<and>
          unscheduled (new_calls st1 st') = [] \<and> removed (new_calls st1 st') = [] \<and>
          (list_all succeeded (new_calls st1 st') \<longrightarrow> r = None) \<and>
          spawned st' = (if r = None then spawned st @ [existing] else spawned st))"
proof (cases "existingJobs m (Release.AppName release) st")
  case (Pair l st1)
  show ?thesis
  proof (cases l)
    case (Inl err)
    with Pair show ?thesis by (simp add: ScheduleRelease_def)
  next
    case (Inr existing)
    with Pair have "existingJobs m (Release.AppName release) st = (Inr existing, st1)" by simp
    from ScheduleRelease_submissions
      [OF this, where config = config and slug = slug and formation = formation] Pair Inr
    show ?thesis by simp
  qed
qed

theorem ScheduleRelease_sequential_witness:
  "(case ScheduleRelease (memory_manager [''web.3.web.2''] [] False) web_release web_config
           web_slug web_formation (web_state 2 []) of
      (r, st') \<Rightarrow>
        r = Some (Error ''rejected'') \<and>
        map (\<lambda>ev. (map scheduler_Job.Name (schedule_of (fst ev)), map JobName (add_of (fst ev)), snd ev))
            (calls st') =
          [([], [], None),
           ([''web.3.web.1''], [], None),
           ([], [''web.3.web.1''], None),
           ([''web.3.web.2''], [], Some (Error ''rejected''))] \<and>
        map JobName (tracked (world st')) = [''web.3.web.1''] \<and>
        spawned st' = [])"
  using ScheduleRelease_sequential [where m = "memory_manager [''web.3.web.2''] [] False"
          and release = web_release and st = "web_state 2 []"
          and config = web_config and slug = web_slug and formation = web_formation]
  by (simp add: run_defs web_defs ScheduleRelease_def buildJobs_def buildJobs_instances.simps)

section \<open>Scaling down\<close>



lemma unschedule_calls:
  assumes "fail_fast (unjob_calls j) r tr"
  shows "map fst tr = [Unschedule (JobName j)] \<or> map fst tr = [Unschedule (JobName j), Remove j]"
proof (cases r)
  case None
  with assms show ?thesis by (simp add: fail_fast_def unjob_calls_def)
next
  case (Some err)
  with assms have n: "tr \<noteq> []" and l: "length tr \<le> 2"
    and m: "map fst tr = take (length tr) [Unschedule (JobName j), Remove j]"
    by (simp_all add: fail_fast_def unjob_calls_def)
  from n have "length tr \<noteq> 0" by simp
  with l have "length tr = 1 \<or> length tr = 2" by arith
  with m show ?thesis by auto
qed


lemma scaleDown_loop_frame:
  "scaleDown_loop m release t jm i q st = (r, st') \<Longrightarrow>
     \<exists>tr. steps st tr st' \<and> scheduled tr = [] \<and> added tr = [] \<and> updated tr = []"
proof (induction m release t jm i q st arbitrary: r st' rule: scaleDown_loop.induct)
  case (1 m release t jm i q st)
  note body = "1.prems" [unfolded scaleDown_loop.simps [of m release t jm i q st]]
  let ?n = "newJobName (Release.AppName release) (Release.Ver release) t i"
  have stop: ?case if "r = None \<or> (\<exists>e. r = Some e)" "st' = st"
    using that
    by (intro exI [of _ "[]"]) (simp add: steps_refl scheduled_def added_def updated_def)
  show ?case
  proof (cases "i > q")
    case False
    with body have "st' = st" by simp
    then show ?thesis using stop by (cases r) auto
  next
    case True
    show ?thesis
    proof (cases "jm ?n")
      case None
      with True body have "st' = st" by simp
      then show ?thesis using stop by (cases r) auto
    next
      case (Some j)
      obtain r1 st1 where u: "unschedule m j st = (r1, st1)" by (cases "unschedule m j st")
      from unschedule_run [OF u] obtain t1 where
        t1: "steps st t1 st1" "fail_fast (unjob_calls j) r1 t1" by blast
      from True Some body have rec: "scaleDown_loop m release t jm (i - 1) q (snd (unschedule m j st)) = (r, st')"
        by simp
      have st1: "snd (unschedule m j st) = st1" using u by simp
      from "1.IH" [OF True refl Some rec, unfolded st1] obtain t2 where
        t2: "steps st1 t2 st'" "scheduled t2 = []" "added t2 = []" "updated t2 = []" by blast
      from unschedule_calls [OF t1(2)]
      have "scheduled t1 = []" "added t1 = []" "updated t1 = []"
        by (auto simp: projections_map)
      with t2 have "scheduled (t1 @ t2) = []" "added (t1 @ t2) = []" "updated (t1 @ t2) = []"
        by (simp_all add: projections_append)
      moreover have "steps st (t1 @ t2) st'" using t1(1) t2(1) by (rule steps_trans)
      ultimately show ?thesis by blast
    qed
  qed
qed

lemma existingJobs_steps:
  "existingJobs m appName st = (r, st') \<Longrightarrow>
     steps st [(ListJobs \<lparr>JobQuery.App = appName\<rparr>, failure r)] st'"
  by (simp add: existingJobs_def call_List_steps)

lemma list_event_projections:
  "scheduled [(ListJobs query, x)] = []" "unscheduled [(ListJobs query, x)] = []"
  "added [(ListJobs query, x)] = []" "removed [(ListJobs query, x)] = []"
  "updated [(ListJobs query, x)] = []"
  by (simp_all add: scheduled_def unscheduled_def added_def removed_def updated_def)

lemma scaleDown_frame:
  assumes "scaleDown m release t p q st = (r, st')"
  shows "\<exists>tr. steps st tr st' \<and> scheduled tr = [] \<and> added tr = [] \<and> updated tr = []"
proof (cases "Quantity (heap st p) > q")
  case False
  with assms have "st' = st" by (simp add: scaleDown_def)
  then show ?thesis
    by (intro exI [of _ "[]"]) (simp add: steps_refl scheduled_def added_def updated_def)
next
  case True
  obtain l st1 where e: "existingJobs m (Release.AppName release) st = (l, st1)"
    by (cases "existingJobs m (Release.AppName release) st")
  note s1 = existingJobs_steps [OF e]
  show ?thesis
  proof (cases l)
    case (Inl err)
    with True e assms have "st' = st1" by (simp add: scaleDown_def)
    with s1 show ?thesis using list_event_projections by blast
  next
    case (Inr existing)
    with True e assms have "scaleDown_loop m release t (jm_loop existing Map.empty)
                              (Quantity (heap st1 p)) q st1 = (r, st')"
      by (simp add: scaleDown_def)
    from scaleDown_loop_frame [OF this] obtain t2 where
      t2: "steps st1 t2 st'" "scheduled t2 = []" "added t2 = []" "updated t2 = []" by blast
    from steps_trans [OF s1 t2(1)] t2(2-4) show ?thesis
      by (intro exI [of _ "(ListJobs \<lparr>JobQuery.App = Release.AppName release\<rparr>, failure l) # t2"])
         (simp add: scheduled_def added_def updated_def)
  qed
qed

lemma scaleUp_frame:
  assumes "scaleUp m release config slug t p q st = (r, st')"
  shows "\<exists>tr. steps st tr st' \<and> unscheduled tr = [] \<and> removed tr = [] \<and> updated tr = []"
proof -
  from scaleUp_run [OF assms] obtain tr where tr: "steps st tr st'"
    "fail_fast (concat (map job_calls (map (instance_job release config slug t (heap st p))
        [Quantity (heap st p) + 1..q]))) r tr"
    by (auto simp: comp_def)
  from submissions_no_removal [OF tr(2)] tr(1) show ?thesis by blast
qed

lemma reconcile_frame:
  assumes "reconcile m release config slug t p q st = (r, st')"
  shows "\<exists>tr. steps st tr st' \<and> updated tr = []"
proof -
  obtain r1 st1 where u: "scaleUp m release config slug t p q st = (r1, st1)"
    by (cases "scaleUp m release config slug t p q st")
  from scaleUp_frame [OF u] obtain t1 where t1: "steps st t1 st1" "updated t1 = []" by blast
  show ?thesis
  proof (cases r1)
    case (Some err)
    with u assms have "st' = st1" by (simp add: reconcile_def)
    with t1 show ?thesis by blast
  next
    case None
    with u assms have "scaleDown m release t p q st1 = (r, st')" by (simp add: reconcile_def)
    from scaleDown_frame [OF this] obtain t2 where t2: "steps st1 t2 st'" "updated t2 = []"
      by blast
    from steps_trans [OF t1(1) t2(1)] t1(2) t2(2) show ?thesis
      by (intro exI [of _ "t1 @ t2"]) (simp add: projections_append)
  qed
qed

lemma scaleProcess_reconcile:
  "scaleProcess m release config slug t p q st =
     (case reconcile m release config slug t p q st of
        (Some err, st2) \<Rightarrow> (Some err, st2)
      | (None, st2) \<Rightarrow> updateQuantity m p q st2)"
  by (simp add: scaleProcess_def reconcile_def split: prod.splits option.splits)

lemma updateQuantity_world:
  assumes "updateQuantity m p q st = (r, st')"
  shows "(r, world st') =
           (case ProcessesRepository_Update m ((heap st p)\<lparr>Quantity := q\<rparr>) (world st) of
              ((_, err), w) \<Rightarrow> (err, w))"
  using assms
  by (auto simp: updateQuantity_def call_Update_def Let_def split: prod.splits)




section \<open>Persisting the quantity\<close>



text \<open>
  C10. When the instance-count part of \<^verbatim>\<open>scaleProcess\<close> finishes without returning an
  error, the process object at \<open>p\<close> is written in place: after the call its quantity is the
  desired value and its command is unchanged, no other object of the store is touched,
  and the \<^verbatim>\<open>Update\<close> call was made with the object as already written; this holds
  whatever the \<^verbatim>\<open>Update\<close> call returns.
\<close>

theorem scaleProcess_mutates_process:
  assumes "fst (reconcile m release config slug t p q st) = None"
  shows "case scaleProcess m release config slug t p q st of (r, st') \<Rightarrow>
           heap st' = (heap st)(p := (heap st p)\<lparr>Quantity := q\<rparr>) \<and>
           Quantity (heap st' p) = q \<and>
           Process.Command (heap st' p) = Process.Command (heap st p) \<and>
           (\<forall>a. a \<noteq> p \<longrightarrow> heap st' a = heap st a) \<and>
           updated (new_calls st st') = [heap st' p] \<and>
           r = snd (fst (ProcessesRepository_Update m (heap st' p)
                           (world (snd (reconcile m release config slug t p q st)))))"
proof -
  obtain st2 where rc: "reconcile m release config slug t p q st = (None, st2)"
    using assms by (cases "reconcile m release config slug t p q st") simp
  from reconcile_frame [OF rc] obtain tr where tr: "steps st tr st2" "updated tr = []" by blast
  obtain r st' where up: "updateQuantity m p q st2 = (r, st')"
    by (cases "updateQuantity m p q st2")
  from rc up have sp: "scaleProcess m release config slug t p q st = (r, st')"
    by (simp add: scaleProcess_reconcile)
  from tr(1) have h: "heap st2 = heap st" by (simp add: steps_def)
  from updateQuantity_run [OF up] h
  have h': "heap st' = (heap st)(p := (heap st p)\<lparr>Quantity := q\<rparr>)" by simp
  from updateQuantity_run [OF up] tr(1) h
  have n: "new_calls st st' = tr @ [(Update ((heap st p)\<lparr>Quantity := q\<rparr>), r)]"
    by (simp add: new_calls_def steps_def)
  with tr(2) h' have u: "updated (new_calls st st') = [heap st' p]"
    by (simp add: projections_append) (simp add: updated_def)
  from updateQuantity_world [OF up] h h'
  have "r = snd (fst (ProcessesRepository_Update m (heap st' p) (world st2)))"
    by (auto split: prod.splits)
  with sp rc h' u show ?thesis by simp
qed

theorem scaleProcess_mutates_process_witness:
  "fst (reconcile (memory_manager [] [] True) web_release web_config web_slug ''web'' 0 2
          (web_state 1 [web_job 1])) = None \<and>
   (case scaleProcess (memory_manager [] [] True) web_release web_config web_slug ''web'' 0 2
           (web_state 1 [web_job 1]) of
      (r, st') \<Rightarrow>
        r = Some (Error ''update failed'') \<and>
        heap st' 0 = \<lparr>Process.Quantity = 2, Process.Command = ''./web''\<rparr> \<and>
        heap st' 1 = \<lparr>Process.Quantity = 1, Process.Command = ''./web''\<rparr> \<and>
        processes (world st') = [])"
  using scaleProcess_mutates_process [where m = "memory_manager [] [] True"
          and release = web_release and config = web_config and slug = web_slug
          and t = "''web''" and p = 0 and q = 2 and st = "web_state 1 [web_job 1]"]
  by (simp add: run_defs web_defs)

section \<open>The dropped error of the scale-down loop\<close>

text \<open>The bulk removal of \<^verbatim>\<open>unscheduleMulti\<close>, which the clean-up goroutine runs, checks
  the result of each \<^verbatim>\<open>m.unschedule\<close> and stops at the first failure; the goroutine
  writes that failure to the log and returns nothing.\<close>

lemma unscheduleMulti_run:
  "unscheduleMulti m jobs st = (r, st') \<Longrightarrow>
     \<exists>tr. steps st tr st' \<and> fail_fast (concat (map unjob_calls jobs)) r tr"
proof (induction jobs arbitrary: st)
  case Nil
  then show ?case using steps_refl fail_fast_Nil by fastforce
next
  case (Cons j jobs)
  obtain r1 st1 where s: "unschedule m j st = (r1, st1)" by (cases "unschedule m j st")
  from unschedule_run [OF s] obtain t1 where t1: "steps st t1 st1" "fail_fast (unjob_calls j) r1 t1"
    by blast
  show ?case
  proof (cases r1)
    case (Some err)
    with s Cons.prems have "r = Some err" "st' = st1" by simp_all
    with t1 Some show ?thesis using fail_fast_append_err by fastforce
  next
    case None
    with s Cons.prems have "unscheduleMulti m jobs st1 = (r, st')" by simp
    from Cons.IH [OF this] obtain t2 where
      t2: "steps st1 t2 st'" "fail_fast (concat (map unjob_calls jobs)) r t2" by blast
    from t1 t2 None have "steps st (t1 @ t2) st'"
      and "fail_fast (unjob_calls j @ concat (map unjob_calls jobs)) r (t1 @ t2)"
      using steps_trans fail_fast_append_ok by blast+
    then show ?thesis by auto
  qed
qed

lemma cleanup_run:
  "\<exists>r tr. calls (cleanup m existing st) = calls st @ tr \<and>
          fail_fast (concat (map unjob_calls existing)) r tr \<and>
          heap (cleanup m existing st) = heap st \<and>
          spawned (cleanup m existing st) = spawned st \<and>
          logged (cleanup m existing st) =
            logged st @ (case r of None \<Rightarrow> []
                         | Some (Error msg) \<Rightarrow> [''Error unscheduling stale jobs: '' @ msg])"
proof -
  obtain r st1 where u: "unscheduleMulti m existing st = (r, st1)"
    by (cases "unscheduleMulti m existing st")
  from unscheduleMulti_run [OF u] obtain tr where
    tr: "steps st tr st1" "fail_fast (concat (map unjob_calls existing)) r tr" by blast
  show ?thesis
  proof (cases r)
    case None
    with u tr show ?thesis
      by (intro exI [of _ None] exI [of _ tr]) (simp add: cleanup_def steps_def)
  next
    case (Some e)
    obtain msg where "e = Error msg" by (cases e)
    with Some u tr show ?thesis
      by (intro exI [of _ "Some (Error msg)"] exI [of _ tr]) (simp add: cleanup_def steps_def)
  qed
qed

text \<open>
  C5. The claim makes a failure of \<^verbatim>\<open>Unschedule\<close> or \<^verbatim>\<open>Remove\<close> inside the scale-down loop
  abort the loop and be returned. The loop calls \<^verbatim>\<open>m.unschedule(j)\<close> and drops its result,
  while \<^verbatim>\<open>unscheduleMulti\<close> and the scale-up loop check theirs. Scaling \<open>web\<close> from 2 to 0
  when the scheduler fails to unschedule \<open>web.3.web.2\<close>: the loop goes on to instance 1,
  the quantity is updated to 0 and the call returns \<^verbatim>\<open>nil\<close>, although \<open>web.3.web.2\<close> is
  still tracked.
\<close>

theorem scale_down_drops_unschedule_error:
  "(case scaleProcess (memory_manager [] [''web.3.web.2''] False) web_release web_config web_slug
           ''web'' 0 0 (web_state 2 [web_job 1, web_job 2]) of
      (r, st') \<Rightarrow>
        r = None \<and>
        map (\<lambda>ev. (unschedule_of (fst ev), map JobName (remove_of (fst ev)), update_of (fst ev), snd ev))
            (calls st') =
          [([], [], [], None),
           ([''web.3.web.2''], [], [], Some (Error ''stuck'')),
           ([''web.3.web.1''], [], [], None),
           ([], [''web.3.web.1''], [], None),
           ([], [], [\<lparr>Process.Quantity = 0, Process.Command = ''./web''\<rparr>], None)] \<and>
        map JobName (tracked (world st')) = [''web.3.web.2''])"
  by (simp add: run_defs web_defs)

section \<open>Scaling a release\<close>

text \<open>
  C8. A process type of the quantity map that the formation has no entry for is skipped by
  \<^verbatim>\<open>ScaleRelease\<close>: with or without its entry in the quantity map, wherever the entry
  stands in the iteration, the call returns the same result and ends in the same state
  (the same collaborator calls, the same collaborator state, the same process store);
  alone in the map, it makes the call return \<^verbatim>\<open>nil\<close> in the state it started from.
\<close>

theorem ScaleRelease_ignores_absent:
  assumes "map_of formation t = None"
  shows "ScaleRelease m release config slug formation (qm1 @ (t, q) # qm2) st =
           ScaleRelease m release config slug formation (qm1 @ qm2) st \<and>
         ScaleRelease m release config slug formation [(t, q)] st = (None, st)"
proof
  show "ScaleRelease m release config slug formation (qm1 @ (t, q) # qm2) st =
          ScaleRelease m release config slug formation (qm1 @ qm2) st"
  proof (induction qm1 arbitrary: st)
    case Nil
    from assms show ?case by simp
  next
    case (Cons a qm1)
    obtain t' q' where a: "a = (t', q')" by (cases a)
    show ?case
    proof (cases "map_of formation t'")
      case None
      with a Cons.IH show ?thesis by simp
    next
      case (Some p)
      with a Cons.IH show ?thesis
        by (simp split: prod.splits option.splits)
    qed
  qed
  from assms show "ScaleRelease m release config slug formation [(t, q)] st = (None, st)"
    by simp
qed

theorem ScaleRelease_ignores_absent_witness:
  "map_of web_formation ''worker'' = None \<and>
   ScaleRelease (memory_manager [] [] False) web_release web_config web_slug web_formation
     [(''worker'', 5), (''web'', 3)] (web_state 2 [web_job 1, web_job 2]) =
   ScaleRelease (memory_manager [] [] False) web_release web_config web_slug web_formation
     [(''web'', 3)] (web_state 2 [web_job 1, web_job 2]) \<and>
   (case ScaleRelease (memory_manager [] [] False) web_release web_config web_slug web_formation
           [(''worker'', 5), (''web'', 3)] (web_state 2 [web_job 1, web_job 2]) of
      (r, st') \<Rightarrow>
        r = None \<and>
        map scheduler_Job.Name (scheduled (calls st')) = [''web.3.web.3''] \<and>
        updated (calls st') = [\<lparr>Process.Quantity = 3, Process.Command = ''./web''\<rparr>])"
  using ScaleRelease_ignores_absent [where formation = web_formation and t = "''worker''"
          and m = "memory_manager [] [] False" and release = web_release
          and config = web_config and slug = web_slug and ?qm1.0 = "[]" and q = 5
          and ?qm2.0 = "[(''web'', 3)]" and st = "web_state 2 [web_job 1, web_job 2]"]
  by (simp add: run_defs web_defs)

section \<open>Job states\<close>

lemma find_snoc:
  "find P (xs @ [y]) = (case find P xs of Some x \<Rightarrow> Some x | None \<Rightarrow> if P y then Some y else None)"
  by (induction xs) simp_all

lemma find_Some_set: "find P xs = Some x \<Longrightarrow> x \<in> set xs \<and> P x"
  by (induction xs) (auto split: if_splits)

lemma jsm_loop_lookup:
  "jsm_loop sjs jsm n = (case snapshot_entry sjs n of Some s \<Rightarrow> Some s | None \<Rightarrow> jsm n)"
proof (induction sjs arbitrary: jsm)
  case Nil
  show ?case by (simp add: snapshot_entry_def)
next
  case (Cons js sjs)
  have "snapshot_entry (js # sjs) n =
          (case snapshot_entry sjs n of
             Some s \<Rightarrow> Some s
           | None \<Rightarrow> if scheduler_JobState.Name js = n then Some js else None)"
    by (simp add: snapshot_entry_def find_snoc)
  then have "(case snapshot_entry (js # sjs) n of Some s \<Rightarrow> Some s | None \<Rightarrow> jsm n) =
         (case snapshot_entry sjs n of
            Some s \<Rightarrow> Some s
          | None \<Rightarrow> (jsm(scheduler_JobState.Name js \<mapsto> js)) n)"
    by (simp split: option.splits)
  moreover have "jsm_loop (js # sjs) jsm n = jsm_loop sjs (jsm(scheduler_JobState.Name js \<mapsto> js)) n"
    by simp
  ultimately show ?case
    by (simp only: Cons.IH [of "jsm(scheduler_JobState.Name js \<mapsto> js)"])
qed

lemma snapshot_entry_Some:
  "snapshot_entry sjs n = Some s \<Longrightarrow> s \<in> set sjs \<and> scheduler_JobState.Name s = n"
  unfolding snapshot_entry_def using find_Some_set [of _ "rev sjs" s] by auto

lemma snapshot_entry_None:
  "snapshot_entry sjs n = None \<Longrightarrow> n \<notin> scheduler_JobState.Name ` set sjs"
  unfolding snapshot_entry_def by (auto simp: find_None_iff)

lemma job_states_loop_map: "job_states_loop jsm jobs = map (job_state jsm) jobs"
  by (induction jobs) simp_all

text \<open>
  C7. \<^verbatim>\<open>JobStatesByApp\<close> returns the error of the listing when the listing fails, the error
  of the scheduler's \<^verbatim>\<open>JobStates\<close> when the listing succeeds and that fetch fails, and
  otherwise, without error, one job state per tracked job, in the order of the listing:
  the state at position \<open>i\<close> holds the \<open>i\<close>-th tracked job and its name; when the snapshot
  has entries of that name it carries the machine identifier and the status of one of
  them (the last), and when it has none it carries \<open>unknown\<close> and \<open>unknown\<close>.
\<close>

theorem JobStatesByApp_states:
  "case JobsRepository_List m \<lparr>JobQuery.App = App.Name app\<rparr> (world st) of
     (Inl err, w1) \<Rightarrow> fst (JobStatesByApp m app st) = Inl err
   | (Inr jobs, w1) \<Rightarrow>
       (case Scheduler_JobStates m w1 of
          (Inl err, w2) \<Rightarrow> fst (JobStatesByApp m app st) = Inl err
        | (Inr sjs, w2) \<Rightarrow>
            (\<exists>js. fst (JobStatesByApp m app st) = Inr js \<and> length js = length jobs \<and>
               (\<forall>i<length jobs.
                  JobState.Job (js ! i) = jobs ! i \<and>
                  JobState.Name (js ! i) = JobName (jobs ! i) \<and>
                  (case snapshot_entry sjs (JobName (jobs ! i)) of
                     Some s \<Rightarrow>
                       s \<in> set sjs \<and> scheduler_JobState.Name s = JobName (jobs ! i) \<and>
                       JobState.MachineID (js ! i) = scheduler_JobState.MachineID s \<and>
                       JobState.State (js ! i) = scheduler_JobState.State s
                   | None \<Rightarrow>
                       JobName (jobs ! i) \<notin> scheduler_JobState.Name ` set sjs \<and>
                       JobState.MachineID (js ! i) = ''unknown'' \<and>
                       JobState.State (js ! i) = ''unknown''))))"
proof (cases "JobsRepository_List m \<lparr>JobQuery.App = App.Name app\<rparr> (world st)")
  case (Pair l w1)
  show ?thesis
  proof (cases l)
    case (Inl err)
    with Pair show ?thesis
      by (simp add: JobStatesByApp_def existingJobs_def call_List_def)
  next
    case (Inr jobs)
    let ?st1 = "st\<lparr>world := w1, calls := calls st @ [(ListJobs \<lparr>JobQuery.App = App.Name app\<rparr>, None)]\<rparr>"
    from Pair Inr have e: "existingJobs m (App.Name app) st = (Inr jobs, ?st1)"
      by (simp add: existingJobs_def call_List_def failure_def)
    obtain x w2 where js: "Scheduler_JobStates m w1 = (x, w2)" by (cases "Scheduler_JobStates m w1")
    show ?thesis
    proof (cases x)
      case (Inl err)
      with Pair Inr e js show ?thesis
        by (simp add: JobStatesByApp_def call_JobStates_def)
    next
      case sjs: (Inr sjs)
      let ?js = "map (job_state (jsm_loop sjs Map.empty)) jobs"
      from e js sjs have r: "fst (JobStatesByApp m app st) = Inr ?js"
        by (simp add: JobStatesByApp_def call_JobStates_def job_states_loop_map)
      have "JobState.Job (?js ! i) = jobs ! i \<and>
            JobState.Name (?js ! i) = JobName (jobs ! i) \<and>
            (case snapshot_entry sjs (JobName (jobs ! i)) of
               Some s \<Rightarrow>
                 s \<in> set sjs \<and> scheduler_JobState.Name s = JobName (jobs ! i) \<and>
                 JobState.MachineID (?js ! i) = scheduler_JobState.MachineID s \<and>
                 JobState.State (?js ! i) = scheduler_JobState.State s
             | None \<Rightarrow>
                 JobName (jobs ! i) \<notin> scheduler_JobState.Name ` set sjs \<and>
                 JobState.MachineID (?js ! i) = ''unknown'' \<and>
                 JobState.State (?js ! i) = ''unknown'')" if "i < length jobs" for i
      proof (cases "snapshot_entry sjs (JobName (jobs ! i))")
        case None
        with that snapshot_entry_None [OF None] show ?thesis
          by (simp add: job_state_def jsm_loop_lookup)
      next
        case (Some s)
        with that snapshot_entry_Some [OF Some] show ?thesis
          by (simp add: job_state_def jsm_loop_lookup)
      qed
      with r Pair Inr js sjs show ?thesis by simp
    qed
  qed
qed

theorem JobStatesByApp_states_witness:
  "fst (JobStatesByApp (memory_manager [] [] False) \<lparr>App.Name = ''web''\<rparr>
          ((web_state 2 [web_job 1])
             \<lparr>world := (world (web_state 2 [web_job 1]))\<lparr>tracked := [web_job 1, web_job 2]\<rparr>\<rparr>)) =
     Inr [\<lparr>JobState.Job = web_job 1, JobState.Name = ''web.3.web.1'',
           JobState.MachineID = ''machine-1'', JobState.State = ''running''\<rparr>,
          \<lparr>JobState.Job = web_job 2, JobState.Name = ''web.3.web.2'',
           JobState.MachineID = ''unknown'', JobState.State = ''unknown''\<rparr>]"
  using JobStatesByApp_states [where m = "memory_manager [] [] False"
          and app = "\<lparr>App.Name = ''web''\<rparr>"
          and st = "(web_state 2 [web_job 1])
             \<lparr>world := (world (web_state 2 [web_job 1]))\<lparr>tracked := [web_job 1, web_job 2]\<rparr>\<rparr>"]
  by (simp add: run_defs web_defs JobStatesByApp_def job_state_def)

end
